theory Spec2Isabelle
  imports Complex_Main
begin

section \<open>Python strings\<close>

text \<open>
  The handler of \<^verbatim>\<open>livekit/agents/utils/interrupt_handler.py\<close> works on Python
  \<^verbatim>\<open>str\<close> values. A \<^verbatim>\<open>str\<close> is a sequence of code points; it is modelled as a HOL
  \<open>string\<close> in which a \<open>char\<close> is the code point with the same number, so the model
  covers the texts whose code points are below 256 (ASCII and Latin-1), and \<open>length\<close>
  is Python's \<^verbatim>\<open>len\<close>. On these code points the character classes below are the ones
  of CPython 3: \<^verbatim>\<open>str.isspace\<close> (used by \<^verbatim>\<open>split()\<close>, \<^verbatim>\<open>strip()\<close> and the
  regular expression class \<^verbatim>\<open>\s\<close>), the class \<^verbatim>\<open>\w\<close> (alphanumeric or underscore), and
  \<^verbatim>\<open>str.lower\<close>, which maps one code point to one code point there.
\<close>

definition isspace :: "char \<Rightarrow> bool" where
  "isspace c = (let n = (of_char c :: nat) in
     (9 \<le> n \<and> n \<le> 13) \<or> (28 \<le> n \<and> n \<le> 32) \<or> n = 133 \<or> n = 160)"

definition is_word_char :: "char \<Rightarrow> bool" where
  "is_word_char c = (let n = (of_char c :: nat) in
     (48 \<le> n \<and> n \<le> 57) \<or> (65 \<le> n \<and> n \<le> 90) \<or> n = 95 \<or> (97 \<le> n \<and> n \<le> 122) \<or>
     n = 170 \<or> n = 178 \<or> n = 179 \<or> n = 181 \<or> n = 185 \<or> n = 186 \<or>
     (188 \<le> n \<and> n \<le> 190) \<or> (192 \<le> n \<and> n \<le> 214) \<or> (216 \<le> n \<and> n \<le> 246) \<or>
     (248 \<le> n \<and> n \<le> 255))"

definition has_upper :: "char \<Rightarrow> bool" where
  "has_upper c = (let n = (of_char c :: nat) in
     (65 \<le> n \<and> n \<le> 90) \<or> (192 \<le> n \<and> n \<le> 214) \<or> (216 \<le> n \<and> n \<le> 222))"

definition lower_char :: "char \<Rightarrow> char" where
  "lower_char c = (if has_upper c then char_of ((of_char c :: nat) + 32) else c)"

text \<open>\<^verbatim>\<open>s.lower()\<close>\<close>

definition str_lower :: "string \<Rightarrow> string" where
  "str_lower s = map lower_char s"

text \<open>\<^verbatim>\<open>s.strip()\<close>: leading and trailing whitespace removed.\<close>

definition str_strip :: "string \<Rightarrow> string" where
  "str_strip s = rev (dropWhile isspace (rev (dropWhile isspace s)))"

text \<open>
  \<^verbatim>\<open>s.split()\<close>: the maximal runs of non-whitespace characters, in order. The first
  argument of \<open>split_from\<close> is the token being read.
\<close>

fun split_from :: "string \<Rightarrow> string \<Rightarrow> string list" where
  "split_from w [] = (if w = [] then [] else [w])"
| "split_from w (c # cs) =
     (if isspace c then (if w = [] then split_from [] cs else w # split_from [] cs)
      else split_from (w @ [c]) cs)"

definition str_split :: "string \<Rightarrow> string list" where
  "str_split s = split_from [] s"

text \<open>\<^verbatim>\<open>sep.join(xs)\<close>\<close>

fun str_join :: "string \<Rightarrow> string list \<Rightarrow> string" where
  "str_join sep [] = []"
| "str_join sep [x] = x"
| "str_join sep (x # y # ys) = x @ sep @ str_join sep (y # ys)"

text \<open>\<^verbatim>\<open>sub in s\<close> on strings: \<open>sub\<close> occurs in \<open>s\<close> as a contiguous substring.\<close>

fun str_in :: "string \<Rightarrow> string \<Rightarrow> bool" where
  "str_in sub [] = (sub = [])"
| "str_in sub (c # cs) = (take (length sub) (c # cs) = sub \<or> str_in sub cs)"

section \<open>Transcript and configuration\<close>

text \<open>
  \<^verbatim>\<open>class Transcript\<close>. The timestamp is a clock reading in seconds;
  \<^verbatim>\<open>timestamp or time.time()\<close> takes the clock (\<open>now\<close>) when no timestamp or the
  timestamp 0 is given.
\<close>

record Transcript =
  text_str :: string
  is_final :: bool
  timestamp :: real

definition Transcript_init :: "string \<Rightarrow> bool \<Rightarrow> real option \<Rightarrow> real \<Rightarrow> Transcript" where
  "Transcript_init txt fin ts now =
     \<lparr>text_str = txt, is_final = fin,
      timestamp = (case ts of None \<Rightarrow> now | Some t \<Rightarrow> if t = 0 then now else t)\<rparr>"

text \<open>\<^verbatim>\<open>class InterruptHandlerConfig\<close>\<close>

record InterruptHandlerConfig =
  soft_words :: "string list"
  hard_words :: "string list"
  validation_window_ms :: int

definition default_soft_words :: "string list" where
  "default_soft_words = [''yeah'', ''ok'', ''hmm'', ''right'', ''uh-huh'', ''mhm'', ''uh huh'']"

definition default_hard_words :: "string list" where
  "default_hard_words =
     [''wait'', ''stop'', ''no'', ''hold on'', ''pause'', ''cancel'', ''hang on'',
      ''stop that'', ''stop it'']"

definition default_validation_window_ms :: int where
  "default_validation_window_ms = 225"

text \<open>
  \<^verbatim>\<open>xs or default\<close>: the default replaces an argument that is absent or the empty list.
\<close>

definition or_default :: "string list option \<Rightarrow> string list \<Rightarrow> string list" where
  "or_default xs d = (case xs of None \<Rightarrow> d | Some ws \<Rightarrow> if ws = [] then d else ws)"

definition InterruptHandlerConfig_init ::
  "string list option \<Rightarrow> string list option \<Rightarrow> int option \<Rightarrow> InterruptHandlerConfig" where
  "InterruptHandlerConfig_init sw hw ms =
     \<lparr>soft_words = map str_lower (or_default sw default_soft_words),
      hard_words = map str_lower (or_default hw default_hard_words),
      validation_window_ms = (case ms of None \<Rightarrow> default_validation_window_ms | Some v \<Rightarrow> v)\<rparr>"

section \<open>The handler\<close>

text \<open>
  The callbacks of the host are modelled by the calls the handler makes to them: every
  operation returns the list of calls in the order it makes them. The result of
  \<^verbatim>\<open>get_agent_speaking_state()\<close>, which an operation reads at most once, is the
  argument \<open>speaking\<close>. A log call records which message it is and the values printed
  in it; the wall-clock prefix of the message is left out.
\<close>

datatype log_msg =
    Log_vad_start
  | Log_stt_no_pending string
  | Log_stt_pending string string
  | Log_hard_word string
  | Log_only_soft
  | Log_non_soft
  | Log_agent_silent
  | Log_agent_started
  | Log_agent_stopped
  | Log_timer_started int
  | Log_timer_expired
  | Log_timeout_speaking
  | Log_timeout_silent

datatype event =
    Logger log_msg
  | Stop_agent_immediately
  | Ignore_user_speech
  | Process_user_speech_normally Transcript

text \<open>
  A \<^verbatim>\<open>threading.Timer\<close> object: the delay it was created with (the value \<^verbatim>\<open>ms\<close>,
  which the code passes on as \<^verbatim>\<open>ms / 1000.0\<close> seconds), its daemon flag, whether
  \<^verbatim>\<open>start()\<close> and whether \<^verbatim>\<open>cancel()\<close> have been called on it.
\<close>

record Timer =
  interval_ms :: int
  daemon :: bool
  started :: bool
  cancelled :: bool

text \<open>
  \<^verbatim>\<open>class InterruptHandler\<close>. \<open>ignore_user_speech\<close> tells whether that optional
  callback was supplied. \<open>heap\<close> holds the Timer objects the handler has created; the
  position of an object in it is its identity, and \<open>timer\<close> is the reference kept in
  \<^verbatim>\<open>self._timer\<close>.
\<close>

record InterruptHandler =
  cfg :: InterruptHandlerConfig
  ignore_user_speech :: bool
  pending_vad :: bool
  transcript_buffer :: "Transcript list"
  timer :: "nat option"
  heap :: "Timer list"

definition InterruptHandler_init :: "InterruptHandlerConfig \<Rightarrow> bool \<Rightarrow> InterruptHandler" where
  "InterruptHandler_init c ign =
     \<lparr>cfg = c, ignore_user_speech = ign, pending_vad = False, transcript_buffer = [],
      timer = None, heap = []\<rparr>"

text \<open>\<^verbatim>\<open>t.cancel()\<close> on the Timer object \<open>i\<close>\<close>

definition cancel :: "nat \<Rightarrow> Timer list \<Rightarrow> Timer list" where
  "cancel i ts = (if i < length ts then ts[i := (ts ! i)\<lparr>cancelled := True\<rparr>] else ts)"

definition cancel_timer :: "InterruptHandler \<Rightarrow> InterruptHandler" where
  "cancel_timer h =
     (case timer h of
        None \<Rightarrow> h
      | Some i \<Rightarrow> h\<lparr>timer := None, heap := cancel i (heap h)\<rparr>)"

text \<open>\<^verbatim>\<open>_clear_pending\<close>\<close>

definition clear_pending :: "InterruptHandler \<Rightarrow> InterruptHandler" where
  "clear_pending h = cancel_timer (h\<lparr>pending_vad := False, transcript_buffer := []\<rparr>)"

text \<open>\<^verbatim>\<open>_normalize\<close>: \<^verbatim>\<open>re.sub(r"[^\w\s'-]", ' ', s)\<close>, then \<^verbatim>\<open>" ".join(s2.split())\<close>\<close>

definition kept_char :: "char \<Rightarrow> bool" where
  "kept_char c = (is_word_char c \<or> isspace c \<or> c = CHR 0x27 \<or> c = CHR ''-'')"

definition re_sub :: "string \<Rightarrow> string" where
  "re_sub s = map (\<lambda>c. if kept_char c then c else CHR '' '') s"

definition normalize :: "string \<Rightarrow> string" where
  "normalize s = str_join '' '' (str_split (re_sub s))"

text \<open>\<^verbatim>\<open>_start_timer\<close>\<close>

definition start_timer :: "InterruptHandler \<Rightarrow> InterruptHandler \<times> event list" where
  "start_timer h =
     (let h1 = cancel_timer h;
          ms = max 50 (validation_window_ms (cfg h1));
          t = \<lparr>interval_ms = ms, daemon = True, started = True, cancelled = False\<rparr>
      in (h1\<lparr>timer := Some (length (heap h1)), heap := heap h1 @ [t]\<rparr>,
          [Logger (Log_timer_started ms)]))"

definition on_vad_user_started :: "InterruptHandler \<Rightarrow> InterruptHandler \<times> event list" where
  "on_vad_user_started h =
     (let (h', evs) = start_timer (h\<lparr>pending_vad := True, transcript_buffer := []\<rparr>)
      in (h', Logger Log_vad_start # evs))"

text \<open>
  The two texts \<^verbatim>\<open>on_stt_transcript\<close> computes from the buffer:
  \<^verbatim>\<open>combined = " ".join(t.text for t in buffer).lower().strip()\<close> and
  \<^verbatim>\<open>norm = self._normalize(combined)\<close>.
\<close>

definition combined_text :: "Transcript list \<Rightarrow> string" where
  "combined_text buf = str_strip (str_lower (str_join '' '' (map text_str buf)))"

definition norm_text :: "Transcript list \<Rightarrow> string" where
  "norm_text buf = normalize (combined_text buf)"

text \<open>\<^verbatim>\<open>all((t in soft_words) or (len(t) <= 2) for t in tokens)\<close>\<close>

definition only_soft :: "string list \<Rightarrow> string list \<Rightarrow> bool" where
  "only_soft soft tokens = list_all (\<lambda>t. t \<in> set soft \<or> length t \<le> 2) tokens"

text \<open>
  The loop \<^verbatim>\<open>for hard in self.cfg.hard_words: if hard in norm: ... return\<close> leaves at the
  first hard word that occurs in the text: \<open>hard_word_hit\<close> is that word, if there is one.
\<close>

definition hard_word_hit :: "InterruptHandlerConfig \<Rightarrow> string \<Rightarrow> string option" where
  "hard_word_hit c s = find (\<lambda>hard. str_in hard s) (hard_words c)"

text \<open>
  \<^verbatim>\<open>on_stt_transcript\<close>. \<open>now\<close> is the clock read when the combined Transcript is
  built.
\<close>

definition on_stt_transcript ::
  "InterruptHandler \<Rightarrow> bool \<Rightarrow> real \<Rightarrow> Transcript \<Rightarrow> InterruptHandler \<times> event list" where
  "on_stt_transcript h speaking now transcript =
     (if \<not> pending_vad h then
        (h, [Logger (Log_stt_no_pending (text_str transcript)),
             Process_user_speech_normally transcript])
      else
        let h1 = h\<lparr>transcript_buffer := transcript_buffer h @ [transcript]\<rparr>;
            combined = combined_text (transcript_buffer h1);
            norm = normalize combined;
            log1 = Logger (Log_stt_pending combined norm)
        in case hard_word_hit (cfg h1) norm of
             Some hard \<Rightarrow>
               (clear_pending h1, [log1, Logger (Log_hard_word hard), Stop_agent_immediately])
           | None \<Rightarrow>
               if speaking then
                 (if only_soft (soft_words (cfg h1)) (str_split norm) then
                    (clear_pending h1,
                     [log1, Logger Log_only_soft] @
                     (if ignore_user_speech h1 then [Ignore_user_speech] else []))
                  else
                    (clear_pending h1, [log1, Logger Log_non_soft, Stop_agent_immediately]))
               else
                 (clear_pending h1,
                  [log1, Logger Log_agent_silent,
                   Process_user_speech_normally
                     (Transcript_init combined (is_final transcript) None now)]))"

definition agent_started_speaking :: "InterruptHandler \<Rightarrow> InterruptHandler \<times> event list" where
  "agent_started_speaking h = (clear_pending h, [Logger Log_agent_started])"

definition agent_stopped_speaking :: "InterruptHandler \<Rightarrow> InterruptHandler \<times> event list" where
  "agent_stopped_speaking h = (clear_pending h, [Logger Log_agent_stopped])"

text \<open>\<^verbatim>\<open>_on_timer_expired\<close>\<close>

definition on_timer_expired :: "InterruptHandler \<Rightarrow> bool \<Rightarrow> InterruptHandler \<times> event list" where
  "on_timer_expired h speaking =
     (if \<not> pending_vad h then (h, [])
      else if speaking then
        (clear_pending h,
         [Logger Log_timer_expired, Logger Log_timeout_speaking] @
         (if ignore_user_speech h then [Ignore_user_speech] else []))
      else
        (clear_pending h, [Logger Log_timer_expired, Logger Log_timeout_silent]))"

section \<open>Observations\<close>

text \<open>The resolution callbacks among the calls of an operation: every call but the log calls.\<close>

fun is_resolution :: "event \<Rightarrow> bool" where
  "is_resolution (Logger m) = False"
| "is_resolution e = True"

definition resolutions :: "event list \<Rightarrow> event list" where
  "resolutions evs = filter is_resolution evs"

text \<open>Idle: no window pending, nothing buffered, no timer held.\<close>

definition idle :: "InterruptHandler \<Rightarrow> bool" where
  "idle h = (\<not> pending_vad h \<and> transcript_buffer h = [] \<and> timer h = None)"

text \<open>A Timer object that can still fire: started and not cancelled.\<close>

definition live :: "Timer \<Rightarrow> bool" where
  "live t = (started t \<and> \<not> cancelled t)"

text \<open>
  What every way out of a pending window leaves behind, seen from the handler \<open>h\<close> before
  the operation: the handler \<open>h'\<close> is idle and the Timer object \<open>h\<close> held is cancelled.
\<close>

definition resolved_from :: "InterruptHandler \<Rightarrow> InterruptHandler \<Rightarrow> bool" where
  "resolved_from h h' =
     (idle h' \<and>
      (case timer h of
         None \<Rightarrow> True
       | Some i \<Rightarrow> i < length (heap h) \<longrightarrow> cancelled (heap h' ! i)))"

text \<open>
  What an operation leaves alone outside the session state: the configuration, the optional
  callback, and every Timer object, but that the one \<open>h\<close> held may have been cancelled.
\<close>

definition frame_kept :: "InterruptHandler \<Rightarrow> InterruptHandler \<Rightarrow> bool" where
  "frame_kept h h' =
     (cfg h' = cfg h \<and> ignore_user_speech h' = ignore_user_speech h \<and>
      length (heap h') = length (heap h) \<and>
      (\<forall>j<length (heap h).
         heap h' ! j = heap h ! j \<or>
         (timer h = Some j \<and> heap h' ! j = (heap h ! j)\<lparr>cancelled := True\<rparr>)))"

text \<open>Texts without whitespace, and the tokens \<^verbatim>\<open>split()\<close> returns.\<close>

definition space_free :: "string \<Rightarrow> bool" where
  "space_free t = (\<forall>c\<in>set t. \<not> isspace c)"

definition token :: "string \<Rightarrow> bool" where
  "token t = (t \<noteq> [] \<and> space_free t)"

text \<open>Whitespace-collapsed: no whitespace character is followed by another one.\<close>

fun no_space_run :: "string \<Rightarrow> bool" where
  "no_space_run (a # b # cs) = (\<not> (isspace a \<and> isspace b) \<and> no_space_run (b # cs))"
| "no_space_run cs = True"

section \<open>Runs of the handler\<close>

text \<open>
  Every operation runs under the handler's lock, so a run of the handler is a sequence of
  whole operations. A timer expiry may come at any moment (also from a Timer whose
  cancellation came too late), with any answer of the host about the agent.
\<close>

inductive step :: "InterruptHandler \<Rightarrow> InterruptHandler \<Rightarrow> bool" where
  vad: "step h (fst (on_vad_user_started h))"
| stt: "step h (fst (on_stt_transcript h speaking now t))"
| started: "step h (fst (agent_started_speaking h))"
| stopped: "step h (fst (agent_stopped_speaking h))"
| expired: "step h (fst (on_timer_expired h speaking))"

inductive reachable :: "InterruptHandler \<Rightarrow> bool" where
  init: "reachable (InterruptHandler_init c ign)"
| after: "reachable h \<Longrightarrow> step h h' \<Longrightarrow> reachable h'"

section \<open>Example handlers\<close>

text \<open>
  A handler with the default configuration and all callbacks, one with the hard words
  \<^verbatim>\<open>[""]\<close>, each right after \<^verbatim>\<open>on_vad_user_started()\<close>, and a few transcripts.
\<close>

definition default_cfg :: InterruptHandlerConfig where
  "default_cfg = InterruptHandlerConfig_init None None None"

definition pending_handler :: InterruptHandler where
  "pending_handler = fst (on_vad_user_started (InterruptHandler_init default_cfg True))"

definition empty_hard_cfg :: InterruptHandlerConfig where
  "empty_hard_cfg = InterruptHandlerConfig_init None (Some ['''']) None"

definition empty_hard_handler :: InterruptHandler where
  "empty_hard_handler = fst (on_vad_user_started (InterruptHandler_init empty_hard_cfg True))"

definition say :: "string \<Rightarrow> Transcript" where
  "say txt = Transcript_init txt True None 1"

section \<open>Python strings: substrings, tokens, normal forms\<close>

lemma str_in_iff: "str_in sub s \<longleftrightarrow> (\<exists>p q. s = p @ sub @ q)"
proof
  assume "str_in sub s"
  then show "\<exists>p q. s = p @ sub @ q"
  proof (induction s)
    case Nil
    then show ?case by simp
  next
    case (Cons c cs)
    from Cons.prems consider (here) "take (length sub) (c # cs) = sub" | (later) "str_in sub cs"
      by auto
    then show ?case
    proof cases
      case here
      have "c # cs = [] @ take (length sub) (c # cs) @ drop (length sub) (c # cs)"
        by simp
      with here show ?thesis by metis
    next
      case later
      then obtain p q where "cs = p @ sub @ q" using Cons.IH by blast
      then have "c # cs = (c # p) @ sub @ q" by simp
      then show ?thesis by blast
    qed
  qed
next
  assume "\<exists>p q. s = p @ sub @ q"
  then obtain p q where s: "s = p @ sub @ q" by blast
  have "str_in sub (p @ sub @ q)"
  proof (induction p)
    case Nil
    have "take (length sub) (sub @ q) = sub" by simp
    then show ?case by (cases "sub @ q") auto
  next
    case (Cons a p)
    then show ?case by simp
  qed
  with s show "str_in sub s" by simp
qed

lemma split_from_tokens:
  "space_free w \<Longrightarrow> t \<in> set (split_from w s) \<Longrightarrow> token t"
proof (induction s arbitrary: w)
  case Nil
  then show ?case by (simp add: token_def split: if_splits)
next
  case (Cons a s)
  have nil: "space_free []" by (simp add: space_free_def)
  show ?case
  proof (cases "isspace a")
    case True
    with Cons.prems have "t = w \<and> w \<noteq> [] \<or> t \<in> set (split_from [] s)"
      by (auto split: if_splits)
    then show ?thesis
      using Cons.prems(1) Cons.IH [OF nil] by (auto simp: token_def)
  next
    case False
    with Cons.prems(1) have "space_free (w @ [a])" by (simp add: space_free_def)
    moreover from False Cons.prems(2) have "t \<in> set (split_from (w @ [a]) s)" by simp
    ultimately show ?thesis by (rule Cons.IH)
  qed
qed

lemma split_from_chars:
  "t \<in> set (split_from w s) \<Longrightarrow> set t \<subseteq> set w \<union> set s"
  by (induction s arbitrary: w) (fastforce split: if_splits)+

lemma split_from_append:
  "space_free t \<Longrightarrow> split_from w (t @ s) = split_from (w @ t) s"
  by (induction t arbitrary: w) (auto simp: space_free_def)

lemma str_split_tokens: "t \<in> set (str_split s) \<Longrightarrow> token t"
  unfolding str_split_def by (rule split_from_tokens) (simp_all add: space_free_def)

lemma isspace_space: "isspace CHR '' ''"
  by (simp add: isspace_def)

lemma split_join:
  "\<forall>t\<in>set ts. token t \<Longrightarrow> str_split (str_join '' '' ts) = ts"
proof (induction "'' ''" ts rule: str_join.induct)
  case 1
  show ?case by (simp add: str_split_def)
next
  case (2 x)
  then have "space_free x" "x \<noteq> []" by (simp_all add: token_def)
  then have "split_from [] (x @ []) = [x]"
    by (simp only: split_from_append) simp
  then show ?case by (simp add: str_split_def)
next
  case (3 x y ys)
  then have x: "space_free x" "x \<noteq> []" by (simp_all add: token_def)
  from 3 have IH: "split_from [] (str_join '' '' (y # ys)) = y # ys"
    by (simp add: str_split_def)
  have "split_from [] (x @ '' '' @ str_join '' '' (y # ys))
      = split_from x ('' '' @ str_join '' '' (y # ys))"
    using x(1) by (simp only: split_from_append) simp
  also have "\<dots> = x # y # ys"
    using x(2) IH by (simp add: isspace_space)
  finally show ?case by (simp add: str_split_def)
qed


lemma str_join_chars:
  "c \<in> set (str_join sep ts) \<Longrightarrow> c \<in> set sep \<or> (\<exists>t\<in>set ts. c \<in> set t)"
  by (induction sep ts rule: str_join.induct) auto

lemma str_join_ends:
  "\<forall>t\<in>set ts. token t \<Longrightarrow> ts \<noteq> [] \<Longrightarrow>
     str_join '' '' ts \<noteq> [] \<and> \<not> isspace (hd (str_join '' '' ts)) \<and>
     \<not> isspace (last (str_join '' '' ts))"
proof (induction "'' ''" ts rule: str_join.induct)
  case 1
  then show ?case by simp
next
  case (2 x)
  then have "x \<noteq> []" "space_free x" by (simp_all add: token_def)
  then show ?case by (simp add: space_free_def)
next
  case (3 x y ys)
  then have x: "x \<noteq> []" "\<not> isspace (hd x)" by (auto simp: token_def space_free_def)
  from 3 have "str_join '' '' (y # ys) \<noteq> [] \<and> \<not> isspace (last (str_join '' '' (y # ys)))"
    by simp
  with x show ?case by simp
qed

lemma str_strip_id:
  assumes "s = [] \<or> (\<not> isspace (hd s) \<and> \<not> isspace (last s))"
  shows "str_strip s = s"
proof (cases s)
  case Nil
  then show ?thesis by (simp add: str_strip_def)
next
  case (Cons a cs)
  with assms have a: "\<not> isspace a" and l: "\<not> isspace (last s)" by auto
  from Cons a have 1: "dropWhile isspace s = s" by simp
  from Cons have "rev s \<noteq> []" by simp
  then obtain b bs where r: "rev s = b # bs" by (cases "rev s") auto
  then have b: "b = last s" using Cons by (metis hd_rev list.sel(1))
  have "dropWhile isspace (b # bs) = b # bs" using l b by simp
  then have "dropWhile isspace (rev s) = rev s" by (simp only: r)
  with 1 show ?thesis by (simp add: str_strip_def)
qed

lemma no_space_run_append:
  "space_free t \<Longrightarrow> no_space_run u \<Longrightarrow> no_space_run (t @ u)"
proof (induction t)
  case Nil
  then show ?case by simp
next
  case (Cons a t)
  then have a: "\<not> isspace a" and IH: "no_space_run (t @ u)"
    by (simp_all add: space_free_def)
  then show ?case by (cases "t @ u") simp_all
qed

lemma no_space_run_join:
  "\<forall>t\<in>set ts. token t \<Longrightarrow> no_space_run (str_join '' '' ts)"
proof (induction "'' ''" ts rule: str_join.induct)
  case 1
  show ?case by simp
next
  case (2 x)
  then have "space_free x" by (simp add: token_def)
  then have "no_space_run (x @ [])" by (rule no_space_run_append) simp
  then show ?case by simp
next
  case (3 x y ys)
  then have x: "space_free x" by (simp add: token_def)
  from 3 have ends: "str_join '' '' (y # ys) \<noteq> [] \<and> \<not> isspace (hd (str_join '' '' (y # ys)))"
    using str_join_ends [of "y # ys"] by simp
  from 3 have "no_space_run (str_join '' '' (y # ys))" by simp
  with ends have "no_space_run ('' '' @ str_join '' '' (y # ys))"
    by (cases "str_join '' '' (y # ys)") simp_all
  with x have "no_space_run (x @ '' '' @ str_join '' '' (y # ys))"
    by (rule no_space_run_append)
  then show ?case by simp
qed

lemma re_sub_kept: "c \<in> set (re_sub s) \<Longrightarrow> kept_char c"
  by (auto simp: re_sub_def kept_char_def isspace_space)

lemma re_sub_chars: "c \<in> set (re_sub s) \<Longrightarrow> c \<in> set s \<or> c = CHR '' ''"
  by (auto simp: re_sub_def split: if_splits)

lemma re_sub_id: "\<forall>c\<in>set s. kept_char c \<Longrightarrow> re_sub s = s"
  by (simp add: re_sub_def map_idI)

lemma normalize_chars:
  assumes "c \<in> set (normalize s)"
  shows "c = CHR '' '' \<or> (c \<in> set (re_sub s) \<and> \<not> isspace c)"
proof -
  from assms have "c \<in> set '' '' \<or> (\<exists>t\<in>set (str_split (re_sub s)). c \<in> set t)"
    unfolding normalize_def by (rule str_join_chars)
  then show ?thesis
  proof
    assume "c \<in> set '' ''"
    then show ?thesis by simp
  next
    assume "\<exists>t\<in>set (str_split (re_sub s)). c \<in> set t"
    then obtain t where t: "t \<in> set (str_split (re_sub s))" and c: "c \<in> set t" by blast
    from t have "token t" by (rule str_split_tokens)
    with c have "\<not> isspace c" by (simp add: token_def space_free_def)
    moreover from t have "set t \<subseteq> set [] \<union> set (re_sub s)"
      unfolding str_split_def by (rule split_from_chars)
    ultimately show ?thesis using c by auto
  qed
qed

lemma split_normalize: "str_split (normalize s) = str_split (re_sub s)"
  unfolding normalize_def by (rule split_join) (simp add: str_split_tokens)

lemma normalize_idem: "normalize (normalize s) = normalize s"
proof -
  have "\<forall>c\<in>set (normalize s). kept_char c"
  proof
    fix c assume "c \<in> set (normalize s)"
    then have "c = CHR '' '' \<or> c \<in> set (re_sub s)"
      using normalize_chars by blast
    then show "kept_char c"
      using re_sub_kept by (auto simp: kept_char_def isspace_space)
  qed
  then have "re_sub (normalize s) = normalize s" by (rule re_sub_id)
  then have "normalize (normalize s) = str_join '' '' (str_split (normalize s))"
    by (simp add: normalize_def)
  also have "\<dots> = normalize s"
    by (simp add: split_normalize) (simp add: normalize_def)
  finally show ?thesis .
qed

lemma normalize_stripped: "str_strip (normalize s) = normalize s"
proof (rule str_strip_id)
  show "normalize s = [] \<or> (\<not> isspace (hd (normalize s)) \<and> \<not> isspace (last (normalize s)))"
  proof (cases "str_split (re_sub s) = []")
    case True
    then show ?thesis by (simp add: normalize_def)
  next
    case False
    then show ?thesis
      unfolding normalize_def
      using str_join_ends [of "str_split (re_sub s)"] by (simp add: str_split_tokens)
  qed
qed

lemma normalize_collapsed: "no_space_run (normalize s)"
  unfolding normalize_def by (rule no_space_run_join) (simp add: str_split_tokens)

lemma lower_char_idem: "lower_char (lower_char c) = lower_char c"
  by (auto simp: lower_char_def has_upper_def Let_def of_char_of)

lemma lower_char_space: "lower_char CHR '' '' = CHR '' ''"
  by (simp add: lower_char_def has_upper_def)

lemma str_lower_iff: "str_lower s = s \<longleftrightarrow> (\<forall>c\<in>set s. lower_char c = c)"
  by (simp add: str_lower_def map_eq_conv [where g = "\<lambda>c. c", simplified])

lemma set_str_strip: "set (str_strip s) \<subseteq> set s"
proof -
  have "set (dropWhile isspace (rev (dropWhile isspace s))) \<subseteq> set (rev (dropWhile isspace s))"
    by (auto dest: set_dropWhileD)
  also have "\<dots> \<subseteq> set s" by (auto dest: set_dropWhileD)
  finally show ?thesis by (simp add: str_strip_def)
qed

lemma normalize_lower:
  assumes "str_lower s = s"
  shows "str_lower (normalize s) = normalize s"
proof -
  { fix c assume "c \<in> set (normalize s)"
    then have "c = CHR '' '' \<or> c \<in> set s"
      using normalize_chars [of c s] re_sub_chars [of c s] by blast
    then have "lower_char c = c"
      using assms by (auto simp: str_lower_iff lower_char_space) }
  then show ?thesis by (simp add: str_lower_iff)
qed

lemma combined_text_lower: "str_lower (combined_text buf) = combined_text buf"
proof -
  { fix c assume "c \<in> set (combined_text buf)"
    then have "c \<in> set (str_lower (str_join '' '' (map text_str buf)))"
      unfolding combined_text_def using set_str_strip by blast
    then have "lower_char c = c"
      by (auto simp: str_lower_def lower_char_idem) }
  then show ?thesis by (simp add: str_lower_iff)
qed

section \<open>The handler: what each operation does\<close>

lemma cancel_length: "length (cancel i ts) = length ts"
  by (simp add: cancel_def)

lemma cancel_nth:
  "j < length ts \<Longrightarrow>
     cancel i ts ! j = (if j = i then (ts ! j)\<lparr>cancelled := True\<rparr> else ts ! j)"
  by (simp add: cancel_def)

lemma clear_pending_idle: "idle (clear_pending h)"
  by (simp add: idle_def clear_pending_def cancel_timer_def split: option.splits)

lemma clear_pending_resolved:
  assumes "timer h1 = timer h" and "heap h1 = heap h"
  shows "resolved_from h (clear_pending h1)"
proof (cases "timer h")
  case None
  then show ?thesis by (simp add: resolved_from_def clear_pending_idle)
next
  case (Some i)
  with assms have "heap (clear_pending h1) = cancel i (heap h)"
    by (simp add: clear_pending_def cancel_timer_def)
  with Some show ?thesis
    by (simp add: resolved_from_def clear_pending_idle cancel_nth)
qed

lemma clear_pending_frame:
  assumes "timer h1 = timer h" and "heap h1 = heap h" and "cfg h1 = cfg h"
    and "ignore_user_speech h1 = ignore_user_speech h"
  shows "frame_kept h (clear_pending h1)"
proof (cases "timer h")
  case None
  with assms show ?thesis
    by (simp add: frame_kept_def clear_pending_def cancel_timer_def)
next
  case (Some i)
  with assms show ?thesis
    by (simp add: frame_kept_def clear_pending_def cancel_timer_def cancel_length cancel_nth)
qed

lemma hard_word_hit_None:
  "hard_word_hit c s = None \<longleftrightarrow> (\<forall>hard\<in>set (hard_words c). \<not> (\<exists>p q. s = p @ hard @ q))"
  by (auto simp: hard_word_hit_def find_None_iff str_in_iff)

lemma hard_word_hit_Some:
  assumes "hard \<in> set (hard_words c)" and "\<exists>p q. s = p @ hard @ q"
  shows "\<exists>first. hard_word_hit c s = Some first"
proof (cases "hard_word_hit c s")
  case None
  with assms show ?thesis by (simp add: hard_word_hit_None)
next
  case (Some first)
  then show ?thesis by simp
qed

lemma stt_hard:
  assumes "pending_vad h"
    and "hard_word_hit (cfg h) (norm_text (transcript_buffer h @ [t])) = Some hard"
  shows "on_stt_transcript h speaking now t =
     (clear_pending (h\<lparr>transcript_buffer := transcript_buffer h @ [t]\<rparr>),
      [Logger (Log_stt_pending (combined_text (transcript_buffer h @ [t]))
                               (norm_text (transcript_buffer h @ [t]))),
       Logger (Log_hard_word hard), Stop_agent_immediately])"
  using assms by (simp add: on_stt_transcript_def Let_def norm_text_def)

lemma stt_speaking:
  assumes "pending_vad h"
    and "hard_word_hit (cfg h) (norm_text (transcript_buffer h @ [t])) = None"
  shows "on_stt_transcript h True now t =
     (clear_pending (h\<lparr>transcript_buffer := transcript_buffer h @ [t]\<rparr>),
      Logger (Log_stt_pending (combined_text (transcript_buffer h @ [t]))
                              (norm_text (transcript_buffer h @ [t]))) #
      (if only_soft (soft_words (cfg h)) (str_split (norm_text (transcript_buffer h @ [t])))
       then Logger Log_only_soft # (if ignore_user_speech h then [Ignore_user_speech] else [])
       else [Logger Log_non_soft, Stop_agent_immediately]))"
  using assms by (simp add: on_stt_transcript_def Let_def norm_text_def)

lemma stt_silent:
  assumes "pending_vad h"
    and "hard_word_hit (cfg h) (norm_text (transcript_buffer h @ [t])) = None"
  shows "on_stt_transcript h False now t =
     (clear_pending (h\<lparr>transcript_buffer := transcript_buffer h @ [t]\<rparr>),
      [Logger (Log_stt_pending (combined_text (transcript_buffer h @ [t]))
                               (norm_text (transcript_buffer h @ [t]))),
       Logger Log_agent_silent,
       Process_user_speech_normally
         \<lparr>text_str = combined_text (transcript_buffer h @ [t]), is_final = is_final t,
          timestamp = now\<rparr>])"
  using assms by (simp add: on_stt_transcript_def Let_def norm_text_def Transcript_init_def)

lemma stt_pending_state:
  assumes "pending_vad h"
  shows "fst (on_stt_transcript h speaking now t) =
     clear_pending (h\<lparr>transcript_buffer := transcript_buffer h @ [t]\<rparr>)"
  using assms by (simp add: on_stt_transcript_def Let_def split: option.splits)

lemma stt_resolved:
  assumes "pending_vad h"
  shows "resolved_from h (fst (on_stt_transcript h speaking now t))"
  unfolding stt_pending_state [OF assms] by (rule clear_pending_resolved) simp_all

lemma vad_state:
  "fst (on_vad_user_started h) =
     (cancel_timer (h\<lparr>pending_vad := True, transcript_buffer := []\<rparr>))
       \<lparr>timer := Some (length (heap h)),
        heap := heap (cancel_timer h) @
          [\<lparr>interval_ms = max 50 (validation_window_ms (cfg h)), daemon = True,
            started = True, cancelled = False\<rparr>]\<rparr>"
  by (simp add: on_vad_user_started_def start_timer_def Let_def cancel_timer_def cancel_length
      split: option.splits)

lemma vad_events:
  "snd (on_vad_user_started h) =
     [Logger Log_vad_start, Logger (Log_timer_started (max 50 (validation_window_ms (cfg h))))]"
  by (simp add: on_vad_user_started_def start_timer_def Let_def cancel_timer_def
      split: option.splits)

lemma cancel_timer_heap_length: "length (heap (cancel_timer h)) = length (heap h)"
  by (simp add: cancel_timer_def cancel_length split: option.splits)

lemma vad_fields:
  "pending_vad (fst (on_vad_user_started h))"
  "transcript_buffer (fst (on_vad_user_started h)) = []"
  "timer (fst (on_vad_user_started h)) = Some (length (heap h))"
  "length (heap (fst (on_vad_user_started h))) = Suc (length (heap h))"
  "heap (fst (on_vad_user_started h)) ! length (heap h) =
     \<lparr>interval_ms = max 50 (validation_window_ms (cfg h)), daemon = True,
      started = True, cancelled = False\<rparr>"
  by (simp_all add: vad_state cancel_timer_heap_length nth_append)
     (simp_all add: cancel_timer_def split: option.splits)

lemma vad_old_timer:
  assumes "timer h = Some i" and "i < length (heap h)"
  shows "cancelled (heap (fst (on_vad_user_started h)) ! i)"
  using assms by (simp add: vad_state cancel_timer_def nth_append cancel_length cancel_nth)

section \<open>Runs: the buffer is empty between operations\<close>

lemma step_buffer_empty: "step h h' \<Longrightarrow> transcript_buffer h = [] \<Longrightarrow> transcript_buffer h' = []"
proof (induction rule: step.induct)
  case (vad h)
  show ?case by (rule vad_fields)
next
  case (stt h speaking now t)
  show ?case
  proof (cases "pending_vad h")
    case True
    then have "idle (fst (on_stt_transcript h speaking now t))"
      by (simp add: stt_pending_state clear_pending_idle)
    then show ?thesis by (simp add: idle_def)
  next
    case False
    with stt show ?thesis by (simp add: on_stt_transcript_def)
  qed
next
  case (started h)
  have "idle (clear_pending h)" by (rule clear_pending_idle)
  then show ?case by (simp add: agent_started_speaking_def idle_def)
next
  case (stopped h)
  have "idle (clear_pending h)" by (rule clear_pending_idle)
  then show ?case by (simp add: agent_stopped_speaking_def idle_def)
next
  case (expired h speaking)
  have "idle (clear_pending h)" by (rule clear_pending_idle)
  with expired show ?case by (simp add: on_timer_expired_def idle_def)
qed

lemma reachable_buffer_empty: "reachable h \<Longrightarrow> transcript_buffer h = []"
proof (induction rule: reachable.induct)
  case (init c ign)
  show ?case by (simp add: InterruptHandler_init_def)
next
  case (after h h')
  then show ?case by (simp add: step_buffer_empty)
qed

lemma step_unpending_clears:
  assumes "step h h'" and "pending_vad h" and "\<not> pending_vad h'"
  shows "idle h'"
  using assms
proof (induction rule: step.induct)
  case (vad h)
  then show ?case by (simp add: vad_fields)
next
  case (stt h speaking now t)
  then show ?case by (simp add: stt_pending_state clear_pending_idle)
next
  case (started h)
  show ?case by (simp add: agent_started_speaking_def clear_pending_idle)
next
  case (stopped h)
  show ?case by (simp add: agent_stopped_speaking_def clear_pending_idle)
next
  case (expired h speaking)
  then show ?case by (simp add: on_timer_expired_def clear_pending_idle)
qed

lemma pending_handler_fields:
  "pending_vad pending_handler" "transcript_buffer pending_handler = []"
  "timer pending_handler = Some 0" "length (heap pending_handler) = 1"
  "ignore_user_speech pending_handler" "cfg pending_handler = default_cfg"
  by (simp_all add: pending_handler_def vad_fields)
     (simp_all add: vad_state cancel_timer_def InterruptHandler_init_def)

section \<open>Hard words\<close>

text \<open>
  C1. While a window is pending, a transcript whose normalized, space-joined buffered text
  (the fragments buffered so far and the new one) contains a configured hard word as a
  substring makes the handler call \<^verbatim>\<open>stop_agent_immediately\<close> exactly once and no other
  resolution callback, and leaves it idle with the timer cancelled, whatever the host
  answers about the agent speaking.
\<close>

theorem hard_word_stops_immediately:
  assumes "pending_vad h"
    and "hard \<in> set (hard_words (cfg h))"
    and "\<exists>p q. norm_text (transcript_buffer h @ [t]) = p @ hard @ q"
  shows "resolutions (snd (on_stt_transcript h speaking now t)) = [Stop_agent_immediately] \<and>
         resolved_from h (fst (on_stt_transcript h speaking now t))"
proof -
  from assms(2,3) obtain first
    where "hard_word_hit (cfg h) (norm_text (transcript_buffer h @ [t])) = Some first"
    using hard_word_hit_Some by blast
  with assms(1) have "resolutions (snd (on_stt_transcript h speaking now t))
      = [Stop_agent_immediately]"
    by (simp add: stt_hard resolutions_def)
  moreover from assms(1) have "resolved_from h (fst (on_stt_transcript h speaking now t))"
    by (rule stt_resolved)
  ultimately show ?thesis by simp
qed

theorem hard_word_stops_immediately_witness:
  "norm_text (transcript_buffer pending_handler @ [say ''No, STOP!'']) = ''no stop'' \<and>
   resolutions (snd (on_stt_transcript pending_handler True 2 (say ''No, STOP!'')))
     = [Stop_agent_immediately] \<and>
   resolved_from pending_handler
     (fst (on_stt_transcript pending_handler True 2 (say ''No, STOP!''))) \<and>
   resolutions (snd (on_stt_transcript pending_handler False 2 (say ''No, STOP!'')))
     = [Stop_agent_immediately] \<and>
   resolved_from pending_handler
     (fst (on_stt_transcript pending_handler False 2 (say ''No, STOP!'')))"
proof -
  have p: "pending_vad pending_handler" by (rule pending_handler_fields)
  have m: "''stop'' \<in> set (hard_words (cfg pending_handler))" by code_simp
  have n: "norm_text (transcript_buffer pending_handler @ [say ''No, STOP!'']) = ''no stop''"
    by code_simp
  have "''no stop'' = ''no '' @ ''stop'' @ []" by simp
  with n have s: "\<exists>p q. norm_text (transcript_buffer pending_handler @ [say ''No, STOP!''])
      = p @ ''stop'' @ q"
    by metis
  show ?thesis
    using n hard_word_stops_immediately [OF p m s, of True 2]
      hard_word_stops_immediately [OF p m s, of False 2]
    by blast
qed

section \<open>Soft words while the agent speaks\<close>

text \<open>
  C2. While a window is pending, the agent speaks and no hard word occurs in the
  normalized combined text: \<^verbatim>\<open>ignore_user_speech\<close> is called exactly when it was
  supplied and every whitespace token of that text is a soft word or at most 2 characters
  long; \<^verbatim>\<open>stop_agent_immediately\<close> is called exactly when some token is neither. One
  of the two paths is taken, at most one resolution callback is called, and the handler
  is left idle.
\<close>

theorem speaking_soft_ignored_else_stopped:
  assumes "pending_vad h"
    and "\<forall>hard\<in>set (hard_words (cfg h)).
           \<not> (\<exists>p q. norm_text (transcript_buffer h @ [t]) = p @ hard @ q)"
  shows "let r = on_stt_transcript h True now t;
             soft = (\<forall>tok\<in>set (str_split (norm_text (transcript_buffer h @ [t]))).
                       tok \<in> set (soft_words (cfg h)) \<or> length tok \<le> 2)
         in (Ignore_user_speech \<in> set (snd r) \<longleftrightarrow> ignore_user_speech h \<and> soft) \<and>
            (Stop_agent_immediately \<in> set (snd r) \<longleftrightarrow> \<not> soft) \<and>
            resolutions (snd r) =
              (if soft then (if ignore_user_speech h then [Ignore_user_speech] else [])
               else [Stop_agent_immediately]) \<and>
            resolved_from h (fst r)"
proof -
  from assms(2) have "hard_word_hit (cfg h) (norm_text (transcript_buffer h @ [t])) = None"
    by (simp only: hard_word_hit_None)
  with assms(1) have r: "on_stt_transcript h True now t =
     (clear_pending (h\<lparr>transcript_buffer := transcript_buffer h @ [t]\<rparr>),
      Logger (Log_stt_pending (combined_text (transcript_buffer h @ [t]))
                              (norm_text (transcript_buffer h @ [t]))) #
      (if only_soft (soft_words (cfg h)) (str_split (norm_text (transcript_buffer h @ [t])))
       then Logger Log_only_soft # (if ignore_user_speech h then [Ignore_user_speech] else [])
       else [Logger Log_non_soft, Stop_agent_immediately]))"
    by (rule stt_speaking)
  have soft: "only_soft (soft_words (cfg h)) (str_split (norm_text (transcript_buffer h @ [t])))
      \<longleftrightarrow> (\<forall>tok\<in>set (str_split (norm_text (transcript_buffer h @ [t]))).
             tok \<in> set (soft_words (cfg h)) \<or> length tok \<le> 2)"
    by (simp add: only_soft_def list_all_iff)
  have res: "resolved_from h (fst (on_stt_transcript h True now t))"
    using assms(1) by (rule stt_resolved)
  show ?thesis
    unfolding Let_def using res by (simp add: r soft resolutions_def)
qed

theorem speaking_soft_ignored_else_stopped_witness:
  "str_split (norm_text (transcript_buffer pending_handler @ [say ''Yeah... ok, mm'']))
     = [''yeah'', ''ok'', ''mm''] \<and>
   resolutions (snd (on_stt_transcript pending_handler True 2 (say ''Yeah... ok, mm'')))
     = [Ignore_user_speech] \<and>
   str_split (norm_text (transcript_buffer pending_handler @ [say ''tell me more'']))
     = [''tell'', ''me'', ''more''] \<and>
   resolutions (snd (on_stt_transcript pending_handler True 2 (say ''tell me more'')))
     = [Stop_agent_immediately]"
proof -
  have p: "pending_vad pending_handler" by (rule pending_handler_fields)
  have ig: "ignore_user_speech pending_handler" by (rule pending_handler_fields)
  have sw: "soft_words (cfg pending_handler)
      = [''yeah'', ''ok'', ''hmm'', ''right'', ''uh-huh'', ''mhm'', ''uh huh'']"
    by code_simp
  have h1: "hard_word_hit (cfg pending_handler)
      (norm_text (transcript_buffer pending_handler @ [say ''Yeah... ok, mm''])) = None"
    by code_simp
  have t1: "str_split (norm_text (transcript_buffer pending_handler @ [say ''Yeah... ok, mm'']))
      = [''yeah'', ''ok'', ''mm'']"
    by code_simp
  have h2: "hard_word_hit (cfg pending_handler)
      (norm_text (transcript_buffer pending_handler @ [say ''tell me more''])) = None"
    by code_simp
  have t2: "str_split (norm_text (transcript_buffer pending_handler @ [say ''tell me more'']))
      = [''tell'', ''me'', ''more'']"
    by code_simp
  note w1 = speaking_soft_ignored_else_stopped
    [OF p h1 [unfolded hard_word_hit_None], of 2, unfolded Let_def t1 sw]
  note w2 = speaking_soft_ignored_else_stopped
    [OF p h2 [unfolded hard_word_hit_None], of 2, unfolded Let_def t2 sw]
  from w1 ig have "resolutions (snd (on_stt_transcript pending_handler True 2
      (say ''Yeah... ok, mm''))) = [Ignore_user_speech]"
    by simp
  moreover from w2 have "resolutions (snd (on_stt_transcript pending_handler True 2
      (say ''tell me more''))) = [Stop_agent_immediately]"
    by simp
  ultimately show ?thesis using t1 t2 by simp
qed

section \<open>A silent agent\<close>

text \<open>
  C3, as the code has it. While a window is pending, the agent is silent and no hard word
  occurs in the normalized combined text, \<^verbatim>\<open>process_user_speech_normally\<close> is the one
  resolution callback called. Its Transcript carries the variable \<^verbatim>\<open>combined\<close>: the
  texts of all buffered fragments and the new one, in arrival order, joined by single
  spaces, lowercased and stripped at both ends, but not passed through
  \<^verbatim>\<open>_normalize\<close>; its finality flag is the one of the new fragment. The handler is
  left idle.
\<close>

theorem silent_agent_processes_combined:
  assumes "pending_vad h"
    and "\<forall>hard\<in>set (hard_words (cfg h)).
           \<not> (\<exists>p q. norm_text (transcript_buffer h @ [t]) = p @ hard @ q)"
  shows "resolutions (snd (on_stt_transcript h False now t)) =
           [Process_user_speech_normally
              \<lparr>text_str = str_strip (str_lower (str_join '' ''
                             (map text_str (transcript_buffer h) @ [text_str t]))),
               is_final = is_final t, timestamp = now\<rparr>] \<and>
         resolved_from h (fst (on_stt_transcript h False now t))"
proof -
  from assms(2) have "hard_word_hit (cfg h) (norm_text (transcript_buffer h @ [t])) = None"
    by (simp only: hard_word_hit_None)
  with assms(1) have "resolutions (snd (on_stt_transcript h False now t)) =
      [Process_user_speech_normally
         \<lparr>text_str = combined_text (transcript_buffer h @ [t]), is_final = is_final t,
          timestamp = now\<rparr>]"
    by (simp add: stt_silent resolutions_def)
  moreover from assms(1) have "resolved_from h (fst (on_stt_transcript h False now t))"
    by (rule stt_resolved)
  ultimately show ?thesis by (simp add: combined_text_def)
qed

theorem silent_agent_processes_combined_witness:
  "resolutions (snd (on_stt_transcript
      (pending_handler\<lparr>transcript_buffer := [say ''Well,'']\<rparr>) False 2
      (Transcript_init '' tell me MORE!  '' False None 1))) =
     [Process_user_speech_normally
        \<lparr>text_str = ''well,  tell me more!'', is_final = False, timestamp = 2\<rparr>] \<and>
   resolved_from (pending_handler\<lparr>transcript_buffer := [say ''Well,'']\<rparr>)
     (fst (on_stt_transcript (pending_handler\<lparr>transcript_buffer := [say ''Well,'']\<rparr>) False 2
        (Transcript_init '' tell me MORE!  '' False None 1)))"
proof -
  have p: "pending_vad (pending_handler\<lparr>transcript_buffer := [say ''Well,'']\<rparr>)"
    by (simp add: pending_handler_fields)
  have h: "hard_word_hit (cfg (pending_handler\<lparr>transcript_buffer := [say ''Well,'']\<rparr>))
      (norm_text (transcript_buffer (pending_handler\<lparr>transcript_buffer := [say ''Well,'']\<rparr>) @
         [Transcript_init '' tell me MORE!  '' False None 1])) = None"
    by code_simp
  have c: "str_strip (str_lower (str_join '' ''
      (map text_str (transcript_buffer (pending_handler\<lparr>transcript_buffer := [say ''Well,'']\<rparr>)) @
       [text_str (Transcript_init '' tell me MORE!  '' False None 1)])))
      = ''well,  tell me more!''"
    by code_simp
  have f: "is_final (Transcript_init '' tell me MORE!  '' False None 1) = False"
    by (simp add: Transcript_init_def)
  show ?thesis
    using silent_agent_processes_combined [OF p h [unfolded hard_word_hit_None], of 2]
    by (simp only: c f)
qed

text \<open>
  The text handed over is not the normalized one: with the default words, a pending window
  and a silent agent, the fragment \<^verbatim>\<open>Hi, there!\<close> is processed as \<^verbatim>\<open>hi, there!\<close>,
  while the normalized combined text is \<^verbatim>\<open>hi there\<close>.
\<close>

theorem silent_agent_text_not_normalized:
  "pending_vad pending_handler \<and>
   hard_word_hit (cfg pending_handler)
     (norm_text (transcript_buffer pending_handler @ [say ''Hi, there!''])) = None \<and>
   norm_text (transcript_buffer pending_handler @ [say ''Hi, there!'']) = ''hi there'' \<and>
   resolutions (snd (on_stt_transcript pending_handler False 2 (say ''Hi, there!''))) =
     [Process_user_speech_normally
        \<lparr>text_str = ''hi, there!'', is_final = True, timestamp = 2\<rparr>] \<and>
   Process_user_speech_normally
     \<lparr>text_str = norm_text (transcript_buffer pending_handler @ [say ''Hi, there!'']),
      is_final = True, timestamp = 2\<rparr>
     \<notin> set (snd (on_stt_transcript pending_handler False 2 (say ''Hi, there!'')))"
  by code_simp

section \<open>The normalizer\<close>

lemma kept_not_space:
  assumes "kept_char c" and "\<not> isspace c"
  shows "is_word_char c \<or> c = CHR 0x27 \<or> c = CHR ''-''"
  using assms by (simp add: kept_char_def)

text \<open>
  C4, as the code has it. \<^verbatim>\<open>_normalize\<close> is a function of its argument alone. In its
  result every character is a word character, an apostrophe, a hyphen or a single space;
  the tokens are those of the argument with every other character replaced by a space;
  no space follows another and none stands at either end. It does not change the case of
  letters: its result is lowercase when its argument is, and \<^verbatim>\<open>on_stt_transcript\<close>
  lowers the combined text before it normalizes it, so the text it matches against the
  word lists is lowercase.
\<close>

theorem normalize_contract:
  "(\<forall>c\<in>set (normalize s).
      if isspace c then c = CHR '' '' else is_word_char c \<or> c = CHR 0x27 \<or> c = CHR ''-'') \<and>
   str_split (normalize s) =
     str_split (map (\<lambda>c. if is_word_char c \<or> isspace c \<or> c = CHR 0x27 \<or> c = CHR ''-''
                          then c else CHR '' '') s) \<and>
   no_space_run (normalize s) \<and>
   str_strip (normalize s) = normalize s \<and>
   normalize (normalize s) = normalize s \<and>
   (str_lower s = s \<longrightarrow> str_lower (normalize s) = normalize s) \<and>
   str_lower (norm_text buf) = norm_text buf"
proof -
  have chars: "\<forall>c\<in>set (normalize s).
      if isspace c then c = CHR '' '' else is_word_char c \<or> c = CHR 0x27 \<or> c = CHR ''-''"
  proof
    fix c assume "c \<in> set (normalize s)"
    then have "c = CHR '' '' \<or> (kept_char c \<and> \<not> isspace c)"
      using normalize_chars re_sub_kept by blast
    then show "if isspace c then c = CHR '' ''
        else is_word_char c \<or> c = CHR 0x27 \<or> c = CHR ''-''"
      using kept_not_space [of c] by (auto simp: isspace_space)
  qed
  have toks: "str_split (normalize s) =
     str_split (map (\<lambda>c. if is_word_char c \<or> isspace c \<or> c = CHR 0x27 \<or> c = CHR ''-''
                          then c else CHR '' '') s)"
    using split_normalize [of s] by (simp add: re_sub_def kept_char_def)
  have low: "str_lower (norm_text buf) = norm_text buf"
    unfolding norm_text_def by (rule normalize_lower) (rule combined_text_lower)
  show ?thesis
    by (intro conjI impI chars toks low normalize_collapsed normalize_stripped
        normalize_idem normalize_lower) assumption
qed

theorem normalize_contract_witness:
  "normalize ''uh-huh,   ok!? '' = ''uh-huh ok'' \<and>
   list_all
     (\<lambda>c. if isspace c then c = CHR '' '' else is_word_char c \<or> c = CHR 0x27 \<or> c = CHR ''-'')
     ''uh-huh ok'' \<and>
   str_split ''uh-huh ok'' = [''uh-huh'', ''ok''] \<and>
   no_space_run ''uh-huh ok'' \<and>
   str_strip ''uh-huh ok'' = ''uh-huh ok'' \<and>
   normalize ''uh-huh ok'' = ''uh-huh ok'' \<and>
   str_lower ''uh-huh,   ok!? '' = ''uh-huh,   ok!? '' \<and>
   str_lower ''uh-huh ok'' = ''uh-huh ok'' \<and>
   str_lower (norm_text [say ''Uh-Huh'']) = norm_text [say ''Uh-Huh'']"
proof -
  have n: "normalize ''uh-huh,   ok!? '' = ''uh-huh ok''" by code_simp
  have l: "str_lower ''uh-huh,   ok!? '' = ''uh-huh,   ok!? ''" by code_simp
  have r: "str_split (map (\<lambda>c. if is_word_char c \<or> isspace c \<or> c = CHR 0x27 \<or> c = CHR ''-''
      then c else CHR '' '') ''uh-huh,   ok!? '') = [''uh-huh'', ''ok'']"
    by code_simp
  note w = normalize_contract [of "''uh-huh,   ok!? ''" "[say ''Uh-Huh'']", unfolded n r]
  from w l n show ?thesis unfolding list_all_iff by blast
qed

text \<open>
  \<^verbatim>\<open>_normalize\<close> itself leaves capital letters as they are: \<^verbatim>\<open>STOP\<close> stays
  \<^verbatim>\<open>STOP\<close>, which is not lowercase.
\<close>

theorem normalize_keeps_case:
  "normalize ''STOP'' = ''STOP'' \<and> str_lower (normalize ''STOP'') \<noteq> normalize ''STOP''"
  by code_simp

section \<open>Timer expiry\<close>

text \<open>
  C5. When the validation timer expires and no window is pending, nothing happens: no
  callback is called and the handler is unchanged. When a window is pending and the agent
  speaks, \<^verbatim>\<open>ignore_user_speech\<close> is called if it was supplied; when a window is
  pending and the agent is silent, no resolution callback is called. In both pending
  cases the handler is left idle.
\<close>

theorem timer_expiry_default:
  "(\<not> pending_vad h \<longrightarrow> on_timer_expired h speaking = (h, [])) \<and>
   (pending_vad h \<longrightarrow>
      resolutions (snd (on_timer_expired h True)) =
        (if ignore_user_speech h then [Ignore_user_speech] else []) \<and>
      resolutions (snd (on_timer_expired h False)) = [] \<and>
      resolved_from h (fst (on_timer_expired h speaking)))"
proof (intro conjI impI)
  assume "\<not> pending_vad h"
  then show "on_timer_expired h speaking = (h, [])"
    by (simp add: on_timer_expired_def)
next
  assume "pending_vad h"
  then show "resolutions (snd (on_timer_expired h True)) =
      (if ignore_user_speech h then [Ignore_user_speech] else [])"
    by (simp add: on_timer_expired_def resolutions_def)
next
  assume "pending_vad h"
  then show "resolutions (snd (on_timer_expired h False)) = []"
    by (simp add: on_timer_expired_def resolutions_def)
next
  assume "pending_vad h"
  then have "fst (on_timer_expired h speaking) = clear_pending h"
    by (simp add: on_timer_expired_def)
  then show "resolved_from h (fst (on_timer_expired h speaking))"
    by (simp add: clear_pending_resolved)
qed

theorem timer_expiry_default_witness:
  "on_timer_expired (InterruptHandler_init default_cfg True) True
     = (InterruptHandler_init default_cfg True, []) \<and>
   resolutions (snd (on_timer_expired pending_handler True)) = [Ignore_user_speech] \<and>
   resolutions (snd (on_timer_expired pending_handler False)) = [] \<and>
   resolved_from pending_handler (fst (on_timer_expired pending_handler True)) \<and>
   resolved_from pending_handler (fst (on_timer_expired pending_handler False))"
proof -
  have i: "\<not> pending_vad (InterruptHandler_init default_cfg True)"
    by (simp add: InterruptHandler_init_def)
  have p: "pending_vad pending_handler" by (rule pending_handler_fields)
  have ig: "ignore_user_speech pending_handler" by (rule pending_handler_fields)
  show ?thesis
    using i p ig timer_expiry_default [of "InterruptHandler_init default_cfg True" True]
      timer_expiry_default [of pending_handler True]
      timer_expiry_default [of pending_handler False]
    by simp
qed

section \<open>A new window\<close>

text \<open>
  C6. \<^verbatim>\<open>on_vad_user_started\<close> while a window is pending restarts the window: afterwards
  a window is pending, the buffer is empty (so it holds no fragment buffered before the
  call), the handler holds a Timer object that did not exist before the call, started and
  not cancelled, the Timer it held before is cancelled and is no longer the one it holds,
  and no resolution callback is called.
\<close>

theorem vad_restarts_window:
  assumes "pending_vad h"
  shows "pending_vad (fst (on_vad_user_started h)) \<and>
         transcript_buffer (fst (on_vad_user_started h)) = [] \<and>
         timer (fst (on_vad_user_started h)) = Some (length (heap h)) \<and>
         length (heap (fst (on_vad_user_started h))) = Suc (length (heap h)) \<and>
         live (heap (fst (on_vad_user_started h)) ! length (heap h)) \<and>
         (\<forall>i. timer h = Some i \<and> i < length (heap h) \<longrightarrow>
              timer (fst (on_vad_user_started h)) \<noteq> Some i \<and>
              cancelled (heap (fst (on_vad_user_started h)) ! i)) \<and>
         resolutions (snd (on_vad_user_started h)) = []"
proof -
  have "live (heap (fst (on_vad_user_started h)) ! length (heap h))"
    by (simp add: vad_fields live_def)
  moreover have "\<forall>i. timer h = Some i \<and> i < length (heap h) \<longrightarrow>
      timer (fst (on_vad_user_started h)) \<noteq> Some i \<and>
      cancelled (heap (fst (on_vad_user_started h)) ! i)"
    by (auto simp: vad_fields vad_old_timer)
  moreover have "resolutions (snd (on_vad_user_started h)) = []"
    by (simp add: vad_events resolutions_def)
  ultimately show ?thesis by (simp add: vad_fields)
qed

theorem vad_restarts_window_witness:
  "pending_vad (pending_handler\<lparr>transcript_buffer := [say ''so'']\<rparr>) \<and>
   timer (pending_handler\<lparr>transcript_buffer := [say ''so'']\<rparr>) = Some 0 \<and>
   pending_vad (fst (on_vad_user_started (pending_handler\<lparr>transcript_buffer := [say ''so'']\<rparr>))) \<and>
   transcript_buffer
     (fst (on_vad_user_started (pending_handler\<lparr>transcript_buffer := [say ''so'']\<rparr>))) = [] \<and>
   timer (fst (on_vad_user_started (pending_handler\<lparr>transcript_buffer := [say ''so'']\<rparr>)))
     = Some 1 \<and>
   live (heap (fst (on_vad_user_started
     (pending_handler\<lparr>transcript_buffer := [say ''so'']\<rparr>))) ! 1) \<and>
   cancelled (heap (fst (on_vad_user_started
     (pending_handler\<lparr>transcript_buffer := [say ''so'']\<rparr>))) ! 0) \<and>
   resolutions (snd (on_vad_user_started (pending_handler\<lparr>transcript_buffer := [say ''so'']\<rparr>)))
     = []"
proof -
  have p: "pending_vad (pending_handler\<lparr>transcript_buffer := [say ''so'']\<rparr>)"
    by (simp add: pending_handler_fields)
  have t: "timer (pending_handler\<lparr>transcript_buffer := [say ''so'']\<rparr>) = Some 0"
    by (simp add: pending_handler_fields)
  have l: "length (heap (pending_handler\<lparr>transcript_buffer := [say ''so'']\<rparr>)) = 1"
    by (simp add: pending_handler_fields)
  show ?thesis
    using p t vad_restarts_window [OF p, unfolded l t] by simp
qed

section \<open>The length of the window\<close>

text \<open>
  C8. The Timer that \<^verbatim>\<open>on_vad_user_started\<close> starts is set to
  \<open>max 50 validation_window_ms\<close> milliseconds, which is at least 50 for every configured
  value, and a configuration built without a value has 225.
\<close>

theorem validation_window_floor:
  "timer (fst (on_vad_user_started h)) = Some (length (heap h)) \<and>
   started (heap (fst (on_vad_user_started h)) ! length (heap h)) \<and>
   interval_ms (heap (fst (on_vad_user_started h)) ! length (heap h))
     = max 50 (validation_window_ms (cfg h)) \<and>
   50 \<le> interval_ms (heap (fst (on_vad_user_started h)) ! length (heap h)) \<and>
   Logger (Log_timer_started (max 50 (validation_window_ms (cfg h))))
     \<in> set (snd (on_vad_user_started h)) \<and>
   validation_window_ms (InterruptHandlerConfig_init sw hw None) = 225 \<and>
   validation_window_ms (InterruptHandlerConfig_init sw hw (Some v)) = v"
  by (simp add: vad_fields vad_events InterruptHandlerConfig_init_def
      default_validation_window_ms_def)

theorem validation_window_floor_witness:
  "interval_ms (heap (fst (on_vad_user_started
      (InterruptHandler_init (InterruptHandlerConfig_init None None (Some 10)) True))) ! 0) = 50 \<and>
   interval_ms (heap (fst (on_vad_user_started
      (InterruptHandler_init (InterruptHandlerConfig_init None None (Some 300)) True))) ! 0) = 300 \<and>
   interval_ms (heap (fst (on_vad_user_started
      (InterruptHandler_init (InterruptHandlerConfig_init None None None) True))) ! 0) = 225"
proof -
  have l: "length (heap (InterruptHandler_init c True)) = 0" for c
    by (simp add: InterruptHandler_init_def)
  have c: "cfg (InterruptHandler_init c True) = c" for c
    by (simp add: InterruptHandler_init_def)
  show ?thesis
    using validation_window_floor
        [of "InterruptHandler_init (InterruptHandlerConfig_init None None (Some 10)) True"
            None None 10]
      validation_window_floor
        [of "InterruptHandler_init (InterruptHandlerConfig_init None None (Some 300)) True"
            None None 300]
      validation_window_floor
        [of "InterruptHandler_init (InterruptHandlerConfig_init None None None) True"
            None None 225]
    by (simp add: l c)
qed

section \<open>The agent starts or stops speaking\<close>

text \<open>
  C9. \<^verbatim>\<open>agent_started_speaking\<close> and \<^verbatim>\<open>agent_stopped_speaking\<close> always leave the
  handler idle with the Timer it held cancelled; each makes one log call and calls no
  resolution callback; the configuration, the callbacks and all other Timer objects are
  as before.
\<close>

theorem agent_speaking_change_resets:
  "resolved_from h (fst (agent_started_speaking h)) \<and>
   resolved_from h (fst (agent_stopped_speaking h)) \<and>
   snd (agent_started_speaking h) = [Logger Log_agent_started] \<and>
   snd (agent_stopped_speaking h) = [Logger Log_agent_stopped] \<and>
   resolutions (snd (agent_started_speaking h)) = [] \<and>
   resolutions (snd (agent_stopped_speaking h)) = [] \<and>
   frame_kept h (fst (agent_started_speaking h)) \<and>
   frame_kept h (fst (agent_stopped_speaking h))"
  by (simp add: agent_started_speaking_def agent_stopped_speaking_def resolutions_def
      clear_pending_resolved clear_pending_frame)

theorem agent_speaking_change_resets_witness:
  "pending_vad pending_handler \<and> timer pending_handler = Some 0 \<and>
   idle (fst (agent_started_speaking pending_handler)) \<and>
   cancelled (heap (fst (agent_started_speaking pending_handler)) ! 0) \<and>
   idle (fst (agent_stopped_speaking pending_handler)) \<and>
   cancelled (heap (fst (agent_stopped_speaking pending_handler)) ! 0) \<and>
   cfg (fst (agent_started_speaking pending_handler)) = cfg pending_handler \<and>
   cfg (fst (agent_stopped_speaking pending_handler)) = cfg pending_handler \<and>
   resolutions (snd (agent_started_speaking pending_handler)) = [] \<and>
   resolutions (snd (agent_stopped_speaking pending_handler)) = []"
  using agent_speaking_change_resets [of pending_handler]
  by (simp add: resolved_from_def frame_kept_def pending_handler_fields resolutions_def)

section \<open>The buffer and the pending flag\<close>

text \<open>
  C7. In every state the handler reaches from its initial state by the operations
  \<^verbatim>\<open>on_vad_user_started\<close>, \<^verbatim>\<open>on_stt_transcript\<close>, \<^verbatim>\<open>agent_started_speaking\<close>,
  \<^verbatim>\<open>agent_stopped_speaking\<close> and timer expiry, a non-empty buffer comes with a pending
  window (stated here as: without a pending window the buffer is empty), and an operation
  that ends a pending window leaves the buffer empty.
\<close>

theorem buffer_only_while_pending:
  assumes "reachable h"
  shows "(\<not> pending_vad h \<longrightarrow> transcript_buffer h = []) \<and>
         (\<forall>h'. step h h' \<and> pending_vad h \<and> \<not> pending_vad h' \<longrightarrow> transcript_buffer h' = [])"
proof (intro conjI allI impI)
  from assms show "transcript_buffer h = []" by (rule reachable_buffer_empty)
next
  fix h' assume "step h h' \<and> pending_vad h \<and> \<not> pending_vad h'"
  then have "idle h'" using step_unpending_clears by blast
  then show "transcript_buffer h' = []" by (simp add: idle_def)
qed

theorem buffer_only_while_pending_witness:
  "reachable (InterruptHandler_init default_cfg True) \<and>
   \<not> pending_vad (InterruptHandler_init default_cfg True) \<and>
   transcript_buffer (InterruptHandler_init default_cfg True) = [] \<and>
   reachable pending_handler \<and>
   step pending_handler (fst (on_stt_transcript pending_handler True 2 (say ''ok''))) \<and>
   pending_vad pending_handler \<and>
   \<not> pending_vad (fst (on_stt_transcript pending_handler True 2 (say ''ok''))) \<and>
   transcript_buffer (fst (on_stt_transcript pending_handler True 2 (say ''ok''))) = []"
proof -
  have r0: "reachable (InterruptHandler_init default_cfg True)" by (rule reachable.init)
  have n0: "\<not> pending_vad (InterruptHandler_init default_cfg True)"
    by (simp add: InterruptHandler_init_def)
  have "step (InterruptHandler_init default_cfg True) pending_handler"
    unfolding pending_handler_def by (rule step.vad)
  with r0 have r1: "reachable pending_handler" by (rule reachable.after)
  have s: "step pending_handler (fst (on_stt_transcript pending_handler True 2 (say ''ok'')))"
    by (rule step.stt)
  have p: "pending_vad pending_handler" by (rule pending_handler_fields)
  have n1: "\<not> pending_vad (fst (on_stt_transcript pending_handler True 2 (say ''ok'')))"
    using clear_pending_idle by (simp add: stt_pending_state p idle_def)
  show ?thesis
    using r0 n0 r1 s p n1 buffer_only_while_pending [OF r0] buffer_only_while_pending [OF r1]
    by blast
qed

section \<open>An empty text\<close>

text \<open>
  C10, as the code has it. While a window is pending and the agent speaks, a transcript
  that makes the normalized combined text empty, with a configuration in which the empty
  string is not a hard word (so that no hard word occurs in the empty text), has no
  tokens and counts as soft: \<^verbatim>\<open>ignore_user_speech\<close> is called if it was supplied,
  \<^verbatim>\<open>stop_agent_immediately\<close> is not, and the handler is left idle.
\<close>

theorem empty_text_is_soft:
  assumes "pending_vad h"
    and "norm_text (transcript_buffer h @ [t]) = []"
    and "[] \<notin> set (hard_words (cfg h))"
  shows "str_split (norm_text (transcript_buffer h @ [t])) = [] \<and>
         resolutions (snd (on_stt_transcript h True now t)) =
           (if ignore_user_speech h then [Ignore_user_speech] else []) \<and>
         Stop_agent_immediately \<notin> set (snd (on_stt_transcript h True now t)) \<and>
         resolved_from h (fst (on_stt_transcript h True now t))"
proof -
  from assms(3) have "hard_word_hit (cfg h) [] = None"
    by (auto simp: hard_word_hit_def find_None_iff)
  with assms(2) have "hard_word_hit (cfg h) (norm_text (transcript_buffer h @ [t])) = None"
    by simp
  with assms(1) have "on_stt_transcript h True now t =
     (clear_pending (h\<lparr>transcript_buffer := transcript_buffer h @ [t]\<rparr>),
      Logger (Log_stt_pending (combined_text (transcript_buffer h @ [t]))
                              (norm_text (transcript_buffer h @ [t]))) #
      (if only_soft (soft_words (cfg h)) (str_split (norm_text (transcript_buffer h @ [t])))
       then Logger Log_only_soft # (if ignore_user_speech h then [Ignore_user_speech] else [])
       else [Logger Log_non_soft, Stop_agent_immediately]))"
    by (rule stt_speaking)
  moreover have "str_split (norm_text (transcript_buffer h @ [t])) = []"
    by (simp add: assms(2) str_split_def)
  moreover from assms(1) have "resolved_from h (fst (on_stt_transcript h True now t))"
    by (rule stt_resolved)
  ultimately show ?thesis
    by (simp add: only_soft_def resolutions_def)
qed

theorem empty_text_is_soft_witness:
  "norm_text (transcript_buffer pending_handler @ [say '' ?!... '']) = [] \<and>
   resolutions (snd (on_stt_transcript pending_handler True 2 (say '' ?!... '')))
     = [Ignore_user_speech] \<and>
   Stop_agent_immediately \<notin> set (snd (on_stt_transcript pending_handler True 2 (say '' ?!... ''))) \<and>
   resolved_from pending_handler (fst (on_stt_transcript pending_handler True 2 (say '' ?!... '')))"
proof -
  have p: "pending_vad pending_handler" by (rule pending_handler_fields)
  have ig: "ignore_user_speech pending_handler" by (rule pending_handler_fields)
  have n: "norm_text (transcript_buffer pending_handler @ [say '' ?!... '']) = []"
    by code_simp
  have e: "[] \<notin> set (hard_words (cfg pending_handler))" by code_simp
  show ?thesis
    using n ig empty_text_is_soft [OF p n e, of 2] by simp
qed

text \<open>
  With the empty string among the hard words, the hard-word check comes first and wins:
  the same kind of transcript stops the agent.
\<close>

theorem empty_text_with_empty_hard_word:
  "pending_vad empty_hard_handler \<and>
   ignore_user_speech empty_hard_handler \<and>
   norm_text (transcript_buffer empty_hard_handler @ [say '' ?!... '']) = [] \<and>
   str_split (norm_text (transcript_buffer empty_hard_handler @ [say '' ?!... ''])) = [] \<and>
   resolutions (snd (on_stt_transcript empty_hard_handler True 2 (say '' ?!... '')))
     = [Stop_agent_immediately] \<and>
   Ignore_user_speech \<notin> set (snd (on_stt_transcript empty_hard_handler True 2 (say '' ?!... '')))"
  by code_simp

end
